theory Spec2Isabelle
  imports Main "HOL-Library.Sublist"
begin

section \<open>The script \<^verbatim>\<open>amazon-test.ts\<close> as state-passing functions\<close>

text \<open>
  The script starts a ChromeDriver subprocess, opens a WebdriverIO session, loads a page,
  looks for the search bar with a list of selectors, reads some attributes and releases
  both resources in a \<^verbatim>\<open>finally\<close> block. Everything it does is a call into a
  library (\<^verbatim>\<open>chromedriver\<close>, \<^verbatim>\<open>webdriverio\<close>, \<^verbatim>\<open>process\<close>, \<^verbatim>\<open>console\<close>), so the model is

  \<^item> a \<open>state\<close> record holding the module variable \<^verbatim>\<open>chromedriverProcess\<close>, the local
    variables of \<^verbatim>\<open>testAmazonSearchBar\<close> that outlive a block, and the trace of every
    library call and console line, in the order they happen;
  \<^item> an \<open>env\<close> record giving the answer of the outside world to every library call
    the script can make: a value, or a thrown exception (\<open>Inl\<close>);
  \<^item> each \<^verbatim>\<open>async\<close> function as a function from a state to a result and a new
    state, where the result \<open>Inl e\<close> is a rejected promise (a thrown exception).
\<close>

subsection \<open>Values\<close>

text \<open>A thrown value: a JavaScript \<^verbatim>\<open>Error\<close> with its message.\<close>

datatype error = Error (message: string)

text \<open>The \<^verbatim>\<open>ChildProcess\<close> returned by \<^verbatim>\<open>start\<close>, the session object returned by
  \<^verbatim>\<open>remote\<close>, and the element object returned by \<^verbatim>\<open>browser.$\<close>.\<close>

datatype proc = Proc (pid: nat)

datatype session = Session (sessionId: string)

datatype element = Element (elementId: nat)

text \<open>
  One entry of the trace. \<open>Invoke\<close> marks the entry into one of the three functions of
  the file; every other constructor is one call into a library, with its arguments.
\<close>

datatype event =
    Invoke string
  | ConsoleLog string
  | ConsoleError string error
  | ChromedriverStart "string list"
  | SetTimeout nat
  | Remote
  | Url string
  | Pause nat
  | Dollar string
  | WaitForExist element nat
  | Execute element
  | IsExisting element
  | IsDisplayed element
  | GetAttribute element string
  | DeleteSession
  | ProcessKill nat
  | ProcessExit nat

subsection \<open>The outside world\<close>

text \<open>
  The answers to the five library calls of one pass through the selector loop
  (lines 123 to 138). The loop body is run at most once for each position of the
  selector list, so the answers are indexed by that position: the table describes any
  sequence of answers a run can meet, also a page that changes between two passes.
\<close>

record attempt_resp =
  dollar_r :: "error + element"
  waitForExist_r :: "error + unit"
  execute_r :: "error + unit"
  pause1000_r :: "error + unit"
  isExisting_r :: "error + bool"

text \<open>
  The answers to every other call. \<^verbatim>\<open>remote\<close> may resolve to a falsy value
  (\<open>None\<close>), which line 82 checks; \<^verbatim>\<open>getAttribute\<close> resolves to a string or to
  \<^verbatim>\<open>null\<close> (\<open>None\<close>).
\<close>

record env =
  start_r :: "error + proc"
  remote_r :: "error + session option"
  url_r :: "error + unit"
  pause3000_r :: "error + unit"
  navDollar_r :: "error + element"
  navIsExisting_r :: "error + bool"
  strategy_r :: "nat \<Rightarrow> attempt_resp"
  isDisplayed_r :: "element \<Rightarrow> error + bool"
  getAttribute_r :: "element \<Rightarrow> string \<Rightarrow> error + string option"
  pause30000_r :: "error + unit"
  deleteSession_r :: "error + unit"
  kill_r :: "nat \<Rightarrow> error + unit"

subsection \<open>The program state\<close>

record state =
  chromedriverProcess :: "proc option"
  browser :: "session option"
  searchBar :: "element option"
  searchBarFound :: bool
  trace :: "event list"

text \<open>Before the script runs: \<^verbatim>\<open>chromedriverProcess = null\<close>, nothing declared, nothing done.\<close>

definition initial :: state where
  "initial = \<lparr>chromedriverProcess = None, browser = None, searchBar = None,
               searchBarFound = False, trace = []\<rparr>"

subsection \<open>Statements\<close>

type_synonym 'a io = "state \<Rightarrow> (error + 'a) \<times> state"

definition return_io :: "'a \<Rightarrow> 'a io" where
  "return_io x = (\<lambda>s. (Inr x, s))"

definition throw_io :: "error \<Rightarrow> 'a io" where
  "throw_io e = (\<lambda>s. (Inl e, s))"

text \<open>\<^verbatim>\<open>x = await m; f(x)\<close>: an exception of \<open>m\<close> skips \<open>f\<close>.\<close>

definition bind_io :: "'a io \<Rightarrow> ('a \<Rightarrow> 'b io) \<Rightarrow> 'b io" where
  "bind_io m f = (\<lambda>s. case m s of (Inl e, s') \<Rightarrow> (Inl e, s') | (Inr x, s') \<Rightarrow> f x s')"

definition then_io :: "'a io \<Rightarrow> 'b io \<Rightarrow> 'b io" where
  "then_io m n = bind_io m (\<lambda>_. n)"

text \<open>\<^verbatim>\<open>try { m } catch (e) { h(e) }\<close>.\<close>

definition try_catch :: "'a io \<Rightarrow> (error \<Rightarrow> 'a io) \<Rightarrow> 'a io" where
  "try_catch m h = (\<lambda>s. case m s of (Inl e, s') \<Rightarrow> h e s' | (Inr x, s') \<Rightarrow> (Inr x, s'))"

text \<open>
  \<^verbatim>\<open>try { m } finally { fin }\<close>: the block \<open>fin\<close> runs whatever \<open>m\<close> did; when \<open>fin\<close>
  itself throws, its exception is the outcome of the whole statement and the outcome
  of \<open>m\<close> is lost, as in JavaScript.
\<close>

definition try_finally :: "'a io \<Rightarrow> unit io \<Rightarrow> 'a io" where
  "try_finally m fin =
     (\<lambda>s. case m s of (r, s') \<Rightarrow>
        (case fin s' of (Inl e, s'') \<Rightarrow> (Inl e, s'') | (Inr _, s'') \<Rightarrow> (r, s'')))"

text \<open>A library call: it is recorded in the trace, then answers \<open>r\<close>.\<close>

definition call :: "event \<Rightarrow> error + 'a \<Rightarrow> 'a io" where
  "call ev r = (\<lambda>s. (r, s\<lparr>trace := trace s @ [ev]\<rparr>))"

definition emit :: "event \<Rightarrow> unit io" where
  "emit ev = call ev (Inr ())"

definition console_log :: "string \<Rightarrow> unit io" where
  "console_log msg = emit (ConsoleLog msg)"

definition console_error :: "string \<Rightarrow> error \<Rightarrow> unit io" where
  "console_error msg e = emit (ConsoleError msg e)"

text \<open>An assignment to a variable of the program.\<close>

definition assign :: "(state \<Rightarrow> state) \<Rightarrow> unit io" where
  "assign f = (\<lambda>s. (Inr (), f s))"

text \<open>Reading a variable of the program.\<close>

definition read :: "(state \<Rightarrow> 'a) \<Rightarrow> 'a io" where
  "read var = (\<lambda>s. (Inr (var s), s))"

text \<open>
  A method call on \<^verbatim>\<open>searchBar\<close>: on \<^verbatim>\<open>undefined\<close> it is a \<^verbatim>\<open>TypeError\<close>. (Line 150
  throws before any such call can meet \<^verbatim>\<open>undefined\<close>.)
\<close>

definition on_searchBar :: "(element \<Rightarrow> 'a io) \<Rightarrow> 'a io" where
  "on_searchBar f =
     bind_io (read searchBar) (\<lambda>v.
       case v of
         None \<Rightarrow> throw_io (Error ''TypeError: searchBar is undefined'')
       | Some el \<Rightarrow> f el)"

subsection \<open>Control Server Supervisor: lines 23 to 48\<close>

definition startChromeDriver :: "env \<Rightarrow> unit io" where
  "startChromeDriver env =
     then_io (emit (Invoke ''startChromeDriver''))
    (try_catch
       (then_io (console_log ''Starting ChromeDriver...'')
       (bind_io (call (ChromedriverStart [''--port=9515'']) (start_r env)) (\<lambda>p.
        then_io (assign (\<lambda>s. s\<lparr>chromedriverProcess := Some p\<rparr>))
       (then_io (console_log ''ChromeDriver started successfully on port 9515'')
                (emit (SetTimeout 1000))))))
       (\<lambda>error.
        then_io (console_error ''Failed to start ChromeDriver:'' error)
                (throw_io error)))"

definition stopChromeDriver :: "env \<Rightarrow> unit io" where
  "stopChromeDriver env =
     then_io (emit (Invoke ''stopChromeDriver''))
    (bind_io (read chromedriverProcess) (\<lambda>v.
       case v of
         None \<Rightarrow> return_io ()
       | Some p \<Rightarrow>
           try_catch
             (then_io (call (ProcessKill (pid p)) (kill_r env (pid p)))
                      (console_log ''ChromeDriver stopped''))
             (\<lambda>error. console_error ''Error stopping ChromeDriver:'' error)))"

subsection \<open>Session and navigation: lines 73 to 103\<close>

text \<open>Lines 73 to 84: start the server, open the session, check the session object.\<close>

definition openBrowser :: "env \<Rightarrow> unit io" where
  "openBrowser env =
     then_io (console_log ''Starting WebdriverIO test...'')
    (then_io (startChromeDriver env)
    (bind_io (call Remote (remote_r env)) (\<lambda>b.
     then_io (assign (\<lambda>s. s\<lparr>browser := b\<rparr>))
    (then_io (console_log ''Browser initialized'')
    (bind_io (read browser) (\<lambda>v.
       case v of
         None \<Rightarrow> throw_io (Error ''Failed to initialize browser'')
       | Some _ \<Rightarrow> return_io ()))))))"

text \<open>Lines 86 to 93: load the page, then the fixed pause.\<close>

definition navigate :: "env \<Rightarrow> unit io" where
  "navigate env =
     then_io (console_log ''Navigating to Amazon homepage...'')
    (then_io (call (Url ''https://www.amazon.com'') (url_r env))
    (then_io (console_log ''Amazon homepage loaded'')
    (then_io (console_log ''Waiting for page to load...'')
             (call (Pause 3000) (pause3000_r env)))))"

text \<open>Lines 95 to 103: the look at \<^verbatim>\<open>#nav-main\<close>, whose exceptions are ignored.\<close>

definition popupCheck :: "env \<Rightarrow> unit io" where
  "popupCheck env =
     try_catch
       (bind_io (call (Dollar ''#nav-main'') (navDollar_r env)) (\<lambda>popupClose.
        bind_io (call (IsExisting popupClose) (navIsExisting_r env)) (\<lambda>ex.
          if ex then console_log ''Page structure detected'' else return_io ())))
       (\<lambda>e. return_io ())"

subsection \<open>Resilient Locator: lines 105 to 152\<close>

definition selectors :: "string list" where
  \<open>selectors =
     [''#twotabsearchtextbox'',
      ''[name="field-keywords"]'',
      ''input[type="text"][name*="search"]'',
      ''input#twotabsearchtextbox'',
      ''#nav-search-input'']\<close>

text \<open>
  Lines 121 to 147, one pass of the loop for the selector at position \<open>i\<close>. The result
  \<open>True\<close> is the \<^verbatim>\<open>break\<close> of line 142; \<open>False\<close> is the end of the body or the
  \<^verbatim>\<open>continue\<close> of line 146. (The console lines of the source that start with a
  pictograph are kept without it.)
\<close>

definition attempt :: "env \<Rightarrow> nat \<Rightarrow> string \<Rightarrow> bool io" where
  "attempt env i selector =
     try_catch
       (then_io (console_log (''Trying selector: '' @ selector))
       (bind_io (call (Dollar selector) (dollar_r (strategy_r env i))) (\<lambda>el.
        then_io (assign (\<lambda>s. s\<lparr>searchBar := Some el\<rparr>))
       (then_io (call (WaitForExist el 10000) (waitForExist_r (strategy_r env i)))
       (then_io (console_log (''Element found with selector: '' @ selector))
       (then_io (call (Execute el) (execute_r (strategy_r env i)))
       (then_io (call (Pause 1000) (pause1000_r (strategy_r env i)))
       (bind_io (call (IsExisting el) (isExisting_r (strategy_r env i))) (\<lambda>ex.
          if ex then
            then_io (assign (\<lambda>s. s\<lparr>searchBarFound := True\<rparr>))
           (then_io (console_log ''Search bar element found!'')
                    (return_io True))
          else return_io False)))))))))
       (\<lambda>e.
        then_io (console_log (''Selector '' @ selector @ '' did not work, trying next...''))
                (return_io False))"

text \<open>Lines 120 to 148: the loop over the selectors from position \<open>i\<close> on.\<close>

fun find_loop :: "env \<Rightarrow> nat \<Rightarrow> string list \<Rightarrow> unit io" where
  "find_loop env i [] = return_io ()"
| "find_loop env i (selector # rest) =
     bind_io (attempt env i selector) (\<lambda>stop.
       if stop then return_io () else find_loop env (Suc i) rest)"

text \<open>Lines 107 to 152: the declarations, the loop, the check after the loop.\<close>

definition locate :: "env \<Rightarrow> string list \<Rightarrow> unit io" where
  "locate env sels =
     then_io (console_log ''Looking for search bar...'')
    (then_io (assign (\<lambda>s. s\<lparr>searchBar := None, searchBarFound := False\<rparr>))
    (then_io (find_loop env 0 sels)
    (bind_io (read (\<lambda>s. \<not> searchBarFound s \<or> searchBar s = None)) (\<lambda>missing.
       if missing
       then throw_io (Error ''Search bar element not found on the page'')
       else return_io ()))))"

subsection \<open>Inspection: lines 154 to 181\<close>

definition checkVisibility :: "env \<Rightarrow> unit io" where
  "checkVisibility env =
     try_catch
       (on_searchBar (\<lambda>el.
          bind_io (call (IsDisplayed el) (isDisplayed_r env el)) (\<lambda>isVisible.
            if isVisible
            then console_log ''SUCCESS: Search bar is visible on Amazon homepage''
            else console_log
              ''Search bar exists but may not be visible (could be hidden or need scrolling)'')))
       (\<lambda>e. console_log ''Could not check visibility, but element exists'')"

text \<open>The JavaScript \<^verbatim>\<open>v || 'N/A'\<close>: \<^verbatim>\<open>null\<close> and the empty string are both falsy.\<close>

definition or_na :: "string option \<Rightarrow> string" where
  "or_na v = (case v of None \<Rightarrow> ''N/A'' | Some x \<Rightarrow> (if x = [] then ''N/A'' else x))"

definition inspectAttributes :: "env \<Rightarrow> unit io" where
  "inspectAttributes env =
     try_catch
       (on_searchBar (\<lambda>el.
          bind_io (call (GetAttribute el ''placeholder'') (getAttribute_r env el ''placeholder''))
            (\<lambda>searchBarValue.
          bind_io (call (GetAttribute el ''id'') (getAttribute_r env el ''id''))
            (\<lambda>searchBarId.
          bind_io (call (GetAttribute el ''name'') (getAttribute_r env el ''name''))
            (\<lambda>searchBarName.
          then_io (console_log (''Search bar ID: '' @ or_na searchBarId))
         (then_io (console_log (''Search bar name: '' @ or_na searchBarName))
                  (console_log (''Search bar placeholder: '' @ or_na searchBarValue))))))))
       (\<lambda>e. console_log ''Could not retrieve search bar attributes'')"

definition hold :: "env \<Rightarrow> unit io" where
  "hold env =
     then_io (console_log ''Test completed successfully!'')
    (then_io (console_log ''Keeping browser open for 30 seconds for verification...'')
    (then_io (console_log ''You can interact with the browser during this time.'')
             (call (Pause 30000) (pause30000_r env))))"

subsection \<open>Orchestrator: lines 68 to 206\<close>

text \<open>The \<^verbatim>\<open>try\<close> block, lines 72 to 182.\<close>

definition body :: "env \<Rightarrow> unit io" where
  "body env =
     then_io (openBrowser env)
    (then_io (navigate env)
    (then_io (popupCheck env)
    (then_io (locate env selectors)
    (then_io (checkVisibility env)
    (then_io (inspectAttributes env)
             (hold env))))))"

text \<open>The \<^verbatim>\<open>finally\<close> block, lines 186 to 194.\<close>

definition cleanup :: "env \<Rightarrow> unit io" where
  "cleanup env =
     then_io
       (bind_io (read browser) (\<lambda>v.
          case v of
            None \<Rightarrow> return_io ()
          | Some _ \<Rightarrow>
              then_io (call DeleteSession (deleteSession_r env))
                      (console_log ''Browser session closed'')))
       (stopChromeDriver env)"

definition testAmazonSearchBar :: "env \<Rightarrow> unit io" where
  "testAmazonSearchBar env =
     then_io (emit (Invoke ''testAmazonSearchBar''))
    (then_io (assign (\<lambda>s. s\<lparr>browser := None\<rparr>))
    (try_finally
       (try_catch (body env)
          (\<lambda>error. then_io (console_error ''Test failed with error:'' error) (throw_io error)))
       (cleanup env)))"

text \<open>Lines 197 to 206: run the test on the initial state and exit.\<close>

definition main :: "env \<Rightarrow> state" where
  "main env =
     (case testAmazonSearchBar env initial of
        (Inr _, s) \<Rightarrow>
          s\<lparr>trace := trace s @ [ConsoleLog ''Test execution finished'', ProcessExit 0]\<rparr>
      | (Inl error, s) \<Rightarrow>
          s\<lparr>trace := trace s @ [ConsoleError ''Test execution failed:'' error, ProcessExit 1]\<rparr>)"

subsection \<open>Reading a trace\<close>

text \<open>The selectors passed to \<^verbatim>\<open>browser.$\<close>, in the order of the calls.\<close>

fun attempted :: "event list \<Rightarrow> string list" where
  "attempted [] = []"
| "attempted (Dollar sel # evs) = sel # attempted evs"
| "attempted (_ # evs) = attempted evs"

text \<open>The pids that \<^verbatim>\<open>process.kill\<close> was called with.\<close>

fun kills :: "event list \<Rightarrow> nat list" where
  "kills [] = []"
| "kills (ProcessKill p # evs) = p # kills evs"
| "kills (_ # evs) = kills evs"

text \<open>The codes that \<^verbatim>\<open>process.exit\<close> was called with.\<close>

fun exits :: "event list \<Rightarrow> nat list" where
  "exits [] = []"
| "exits (ProcessExit c # evs) = c # exits evs"
| "exits (_ # evs) = exits evs"

text \<open>What the run did after the state \<open>s\<close>, when \<open>s'\<close> is a later state.\<close>

definition since :: "state \<Rightarrow> state \<Rightarrow> event list" where
  "since s s' = drop (length (trace s)) (trace s')"

text \<open>
  A pass of the loop reaches line 140 when none of its five calls throws and the
  re-check of line 138 answers \<^verbatim>\<open>true\<close>.
\<close>

definition confirmed :: "attempt_resp \<Rightarrow> bool" where
  "confirmed r =
     (\<not> isl (dollar_r r) \<and> waitForExist_r r = Inr () \<and> execute_r r = Inr () \<and>
      pause1000_r r = Inr () \<and> isExisting_r r = Inr True)"

text \<open>Some call of the pass throws.\<close>

definition raises :: "attempt_resp \<Rightarrow> bool" where
  "raises r =
     (isl (dollar_r r) \<or> isl (waitForExist_r r) \<or> isl (execute_r r) \<or>
      isl (pause1000_r r) \<or> isl (isExisting_r r))"

text \<open>
  The element of a pass exists: \<^verbatim>\<open>browser.$\<close> returns it, the existence wait of line 126
  returns, and the re-check of line 138 answers \<^verbatim>\<open>true\<close>. Nothing is said of the scroll
  and of the settle pause in between.
\<close>

definition existing :: "attempt_resp \<Rightarrow> bool" where
  "existing r =
     (\<not> isl (dollar_r r) \<and> waitForExist_r r = Inr () \<and> isExisting_r r = Inr True)"

subsection \<open>Properties of traces\<close>

text \<open>Every event that \<open>m\<close> adds to the trace satisfies \<open>P\<close>; nothing is removed.\<close>

definition emits :: "(event \<Rightarrow> bool) \<Rightarrow> 'a io \<Rightarrow> bool" where
  "emits P m = (\<forall>s. \<exists>evs. trace (snd (m s)) = trace s @ evs \<and> list_all P evs)"

text \<open>The events a stage of the script can add to the trace.\<close>

fun stage_event :: "event \<Rightarrow> bool" where
  "stage_event (ProcessExit c) = False"
| "stage_event _ = True"

subsection \<open>Sample answers of the outside world\<close>

text \<open>A pass of the loop in which every call succeeds and the element exists.\<close>

definition present :: "element \<Rightarrow> attempt_resp" where
  "present el =
     \<lparr>dollar_r = Inr el, waitForExist_r = Inr (), execute_r = Inr (),
      pause1000_r = Inr (), isExisting_r = Inr True\<rparr>"

text \<open>A pass of the loop in which \<^verbatim>\<open>waitForExist\<close> times out.\<close>

definition absent :: "element \<Rightarrow> attempt_resp" where
  "absent el =
     \<lparr>dollar_r = Inr el,
      waitForExist_r = Inl (Error ''element still not existing after 10000ms''),
      execute_r = Inr (), pause1000_r = Inr (), isExisting_r = Inr False\<rparr>"

text \<open>A run in which every call succeeds; the selector at position \<open>i\<close> gives element \<open>i\<close>.\<close>

definition all_fine :: env where
  "all_fine =
     \<lparr>start_r = Inr (Proc 4242),
      remote_r = Inr (Some (Session ''abc'')),
      url_r = Inr (),
      pause3000_r = Inr (),
      navDollar_r = Inr (Element 99),
      navIsExisting_r = Inr True,
      strategy_r = (\<lambda>i. present (Element i)),
      isDisplayed_r = (\<lambda>el. Inr True),
      getAttribute_r = (\<lambda>el a. Inr (Some a)),
      pause30000_r = Inr (),
      deleteSession_r = Inr (),
      kill_r = (\<lambda>p. Inr ())\<rparr>"

section \<open>Proof tools\<close>

lemmas io_defs = return_io_def throw_io_def bind_io_def then_io_def try_catch_def
  try_finally_def call_def emit_def console_log_def console_error_def assign_def on_searchBar_def

lemma emitsI: "(\<And>s. \<exists>evs. trace (snd (m s)) = trace s @ evs \<and> list_all P evs) \<Longrightarrow> emits P m"
  by (simp add: emits_def)

lemma emitsD: "emits P m \<Longrightarrow> \<exists>evs. trace (snd (m s)) = trace s @ evs \<and> list_all P evs"
  by (simp add: emits_def)

lemma emits_return: "emits P (return_io x)"
  by (simp add: emits_def return_io_def)

lemma emits_throw: "emits P (throw_io e)"
  by (simp add: emits_def throw_io_def)

lemma emits_call: "P ev \<Longrightarrow> emits P (call ev r)"
  by (simp add: emits_def call_def)

lemma emits_emit: "P ev \<Longrightarrow> emits P (emit ev)"
  by (simp add: emit_def emits_call)

lemma emits_log: "P (ConsoleLog msg) \<Longrightarrow> emits P (console_log msg)"
  by (simp add: console_log_def emits_emit)

lemma emits_error: "P (ConsoleError msg e) \<Longrightarrow> emits P (console_error msg e)"
  by (simp add: console_error_def emits_emit)

lemma emits_bind:
  assumes m: "emits P m" and f: "\<And>x. emits P (f x)"
  shows "emits P (bind_io m f)"
proof (rule emitsI)
  fix s
  obtain r s1 where ms: "m s = (r, s1)" by (cases "m s")
  from emitsD [OF m, of s] ms obtain evs1
    where t1: "trace s1 = trace s @ evs1" and p1: "list_all P evs1" by auto
  show "\<exists>evs. trace (snd (bind_io m f s)) = trace s @ evs \<and> list_all P evs"
  proof (cases r)
    case (Inl e)
    with ms t1 p1 show ?thesis by (simp add: bind_io_def)
  next
    case (Inr x)
    from emitsD [OF f, of x s1] obtain evs2
      where t2: "trace (snd (f x s1)) = trace s1 @ evs2" and p2: "list_all P evs2" by auto
    from Inr ms t1 t2 p1 p2 show ?thesis by (simp add: bind_io_def)
  qed
qed

lemma emits_then: "emits P m \<Longrightarrow> emits P n \<Longrightarrow> emits P (then_io m n)"
  by (simp add: then_io_def emits_bind)

lemma emits_catch:
  assumes m: "emits P m" and h: "\<And>e. emits P (h e)"
  shows "emits P (try_catch m h)"
proof (rule emitsI)
  fix s
  obtain r s1 where ms: "m s = (r, s1)" by (cases "m s")
  from emitsD [OF m, of s] ms obtain evs1
    where t1: "trace s1 = trace s @ evs1" and p1: "list_all P evs1" by auto
  show "\<exists>evs. trace (snd (try_catch m h s)) = trace s @ evs \<and> list_all P evs"
  proof (cases r)
    case (Inr x)
    with ms t1 p1 show ?thesis by (simp add: try_catch_def)
  next
    case (Inl e)
    from emitsD [OF h, of e s1] obtain evs2
      where t2: "trace (snd (h e s1)) = trace s1 @ evs2" and p2: "list_all P evs2" by auto
    from Inl ms t1 t2 p1 p2 show ?thesis by (simp add: try_catch_def)
  qed
qed

lemma emits_finally:
  assumes m: "emits P m" and f: "emits P fin"
  shows "emits P (try_finally m fin)"
proof (rule emitsI)
  fix s
  obtain r s1 where ms: "m s = (r, s1)" by (cases "m s")
  from emitsD [OF m, of s] ms obtain evs1
    where t1: "trace s1 = trace s @ evs1" and p1: "list_all P evs1" by auto
  obtain r2 s2 where fs: "fin s1 = (r2, s2)" by (cases "fin s1")
  from emitsD [OF f, of s1] fs obtain evs2
    where t2: "trace s2 = trace s1 @ evs2" and p2: "list_all P evs2" by auto
  from ms fs t1 t2 p1 p2
  show "\<exists>evs. trace (snd (try_finally m fin s)) = trace s @ evs \<and> list_all P evs"
    by (cases r2) (simp_all add: try_finally_def)
qed

lemma emits_assign: "(\<And>s. trace (f s) = trace s) \<Longrightarrow> emits P (assign f)"
  by (simp add: emits_def assign_def)

lemma emits_read: "emits P (read var)"
  by (simp add: emits_def read_def)

lemmas emits_intros = emits_return emits_throw emits_call emits_emit emits_log emits_error
  emits_bind emits_then emits_catch emits_finally emits_assign emits_read

lemma emits_startChromeDriver: "emits stage_event (startChromeDriver env)"
  by (simp add: startChromeDriver_def emits_intros)

lemma emits_stopChromeDriver: "emits stage_event (stopChromeDriver env)"
  by (simp add: stopChromeDriver_def emits_intros split: option.split)

lemma emits_openBrowser: "emits stage_event (openBrowser env)"
  by (simp add: openBrowser_def emits_intros emits_startChromeDriver split: option.split)

lemma emits_navigate: "emits stage_event (navigate env)"
  by (simp add: navigate_def emits_intros)

lemma emits_popupCheck: "emits stage_event (popupCheck env)"
  by (simp add: popupCheck_def emits_intros)

lemma emits_attempt: "emits stage_event (attempt env i sel)"
  by (simp add: attempt_def emits_intros)

lemma emits_find_loop: "emits stage_event (find_loop env i sels)"
  by (induction sels arbitrary: i) (simp_all add: emits_intros emits_attempt)

lemma emits_locate: "emits stage_event (locate env sels)"
  by (simp add: locate_def emits_intros emits_find_loop)

lemma emits_checkVisibility: "emits stage_event (checkVisibility env)"
  by (simp add: checkVisibility_def on_searchBar_def emits_intros split: option.split)

lemma emits_inspectAttributes: "emits stage_event (inspectAttributes env)"
  by (simp add: inspectAttributes_def on_searchBar_def emits_intros split: option.split)

lemma emits_hold: "emits stage_event (hold env)"
  by (simp add: hold_def emits_intros)

lemma emits_body: "emits stage_event (body env)"
  by (simp add: body_def emits_then emits_openBrowser emits_navigate emits_popupCheck
      emits_locate emits_checkVisibility emits_inspectAttributes emits_hold)

lemma emits_cleanup: "emits stage_event (cleanup env)"
  by (simp add: cleanup_def emits_intros emits_stopChromeDriver split: option.split)

lemma emits_testAmazonSearchBar: "emits stage_event (testAmazonSearchBar env)"
  by (simp add: testAmazonSearchBar_def emits_intros emits_body emits_cleanup)

lemma exits_append: "exits (xs @ ys) = exits xs @ exits ys"
  by (induction xs rule: exits.induct) simp_all

lemma exits_stage: "list_all stage_event evs \<Longrightarrow> exits evs = []"
  by (induction evs rule: exits.induct) simp_all

lemma since_append: "trace s' = trace s @ evs \<Longrightarrow> since s s' = evs"
  by (simp add: since_def)

section \<open>The exit code\<close>

lemma exits_main:
  "exits (trace (main env)) =
     [case fst (testAmazonSearchBar env initial) of Inl _ \<Rightarrow> 1 | Inr _ \<Rightarrow> 0]"
proof -
  obtain r s where run: "testAmazonSearchBar env initial = (r, s)"
    by (cases "testAmazonSearchBar env initial")
  from emitsD [OF emits_testAmazonSearchBar, of env initial] run
  obtain evs where "trace s = evs" and "list_all stage_event evs"
    by (auto simp: initial_def)
  then have "exits (trace s) = []"
    by (simp add: exits_stage)
  with run show ?thesis
    by (cases r) (simp_all add: main_def exits_append)
qed

text \<open>
  Claim C9. A run has one outcome, and \<^verbatim>\<open>process.exit\<close> is called exactly once: with 0
  when \<^verbatim>\<open>testAmazonSearchBar\<close> resolves, with 1 when it rejects, whatever the stage
  that failed.
\<close>

theorem main_exit_code:
  "exits (trace (main env)) =
     [case fst (testAmazonSearchBar env initial) of Inl _ \<Rightarrow> 1 | Inr _ \<Rightarrow> 0]"
  by (rule exits_main)

section \<open>Stopping the server\<close>

lemma since_self: "since s (s\<lparr>trace := trace s @ evs\<rparr>) = evs"
  by (simp add: since_def)

lemma kills_append: "kills (xs @ ys) = kills xs @ kills ys"
  by (induction xs rule: kills.induct) simp_all

lemma stopChromeDriver_None:
  "chromedriverProcess s = None \<Longrightarrow>
   stopChromeDriver env s = (Inr (), s\<lparr>trace := trace s @ [Invoke ''stopChromeDriver'']\<rparr>)"
  by (simp add: stopChromeDriver_def io_defs read_def)

lemma stopChromeDriver_Some:
  "chromedriverProcess s = Some p \<Longrightarrow>
   stopChromeDriver env s =
     (Inr (), s\<lparr>trace := trace s @
        [Invoke ''stopChromeDriver'', ProcessKill (pid p),
         (case kill_r env (pid p) of
            Inr _ \<Rightarrow> ConsoleLog ''ChromeDriver stopped''
          | Inl e \<Rightarrow> ConsoleError ''Error stopping ChromeDriver:'' e)]\<rparr>)"
  by (simp add: stopChromeDriver_def io_defs read_def split: sum.split)

lemma stopChromeDriver_ok: "fst (stopChromeDriver env s) = Inr ()"
  by (cases "chromedriverProcess s") (simp_all add: stopChromeDriver_None stopChromeDriver_Some)

lemma stopChromeDriver_keeps:
  "chromedriverProcess (snd (stopChromeDriver env s)) = chromedriverProcess s"
  "browser (snd (stopChromeDriver env s)) = browser s"
  by (cases "chromedriverProcess s"; simp add: stopChromeDriver_None stopChromeDriver_Some)+

lemma stopChromeDriver_kills:
  "\<exists>evs. trace (snd (stopChromeDriver env s)) = trace s @ evs \<and>
         kills evs = (case chromedriverProcess s of None \<Rightarrow> [] | Some p \<Rightarrow> [pid p])"
  by (cases "chromedriverProcess s")
     (simp_all add: stopChromeDriver_None stopChromeDriver_Some split: sum.split)

text \<open>
  Claim C5, as the code has it. \<^verbatim>\<open>stopChromeDriver\<close> never throws, neither on a first
  call nor on a second one in a row, and it leaves \<^verbatim>\<open>chromedriverProcess\<close> as it was.
  When the server was never started (\<^verbatim>\<open>chromedriverProcess\<close> is \<^verbatim>\<open>null\<close>) the call
  does nothing at all. When a server was started, every call sends one termination signal
  to its pid: the variable is never cleared, so two calls in a row send two signals.
\<close>

theorem stopChromeDriver_repeated:
  "fst (stopChromeDriver env s) = Inr () \<and>
   fst (stopChromeDriver env' (snd (stopChromeDriver env s))) = Inr () \<and>
   chromedriverProcess (snd (stopChromeDriver env s)) = chromedriverProcess s \<and>
   (chromedriverProcess s = None \<longrightarrow>
      snd (stopChromeDriver env s) = s\<lparr>trace := trace s @ [Invoke ''stopChromeDriver'']\<rparr>) \<and>
   (\<forall>p. chromedriverProcess s = Some p \<longrightarrow>
      kills (since s (snd (stopChromeDriver env s))) = [pid p] \<and>
      kills (since s (snd (stopChromeDriver env' (snd (stopChromeDriver env s))))) = [pid p, pid p])"
proof -
  let ?s1 = "snd (stopChromeDriver env s)"
  let ?s2 = "snd (stopChromeDriver env' ?s1)"
  obtain evs1 where t1: "trace ?s1 = trace s @ evs1"
    and k1: "kills evs1 = (case chromedriverProcess s of None \<Rightarrow> [] | Some p \<Rightarrow> [pid p])"
    using stopChromeDriver_kills [of env s] by blast
  obtain evs2 where t2: "trace ?s2 = trace ?s1 @ evs2"
    and k2: "kills evs2 = (case chromedriverProcess s of None \<Rightarrow> [] | Some p \<Rightarrow> [pid p])"
    using stopChromeDriver_kills [of env' ?s1] by (auto simp: stopChromeDriver_keeps)
  have once: "kills (since s ?s1) = [pid p]" if "chromedriverProcess s = Some p" for p
    using that t1 k1 by (simp add: since_def)
  have twice: "kills (since s ?s2) = [pid p, pid p]" if "chromedriverProcess s = Some p" for p
    using that t1 t2 k1 k2 by (simp add: since_def kills_append)
  have noop: "?s1 = s\<lparr>trace := trace s @ [Invoke ''stopChromeDriver'']\<rparr>"
    if "chromedriverProcess s = None"
    using that by (simp add: stopChromeDriver_None)
  from once twice noop show ?thesis
    by (simp add: stopChromeDriver_ok stopChromeDriver_keeps)
qed

theorem stopChromeDriver_repeated_witness:
  "kills (since (initial\<lparr>chromedriverProcess := Some (Proc 4242)\<rparr>)
     (snd (stopChromeDriver (all_fine\<lparr>kill_r := (\<lambda>p. Inl (Error ''kill ESRCH''))\<rparr>)
        (snd (stopChromeDriver all_fine (initial\<lparr>chromedriverProcess := Some (Proc 4242)\<rparr>))))))
     = [4242, 4242] \<and>
   snd (stopChromeDriver all_fine initial) = initial\<lparr>trace := [Invoke ''stopChromeDriver'']\<rparr>"
  using stopChromeDriver_repeated [of all_fine "initial\<lparr>chromedriverProcess := Some (Proc 4242)\<rparr>"
      "all_fine\<lparr>kill_r := (\<lambda>p. Inl (Error ''kill ESRCH''))\<rparr>"]
    stopChromeDriver_repeated [of all_fine initial all_fine]
  by (simp add: initial_def)

text \<open>
  The claim C5 as the specification states it fails: after a started server, a second call
  in a row calls \<^verbatim>\<open>process.kill\<close> a second time (here the second signal finds the
  process gone and throws, which \<^verbatim>\<open>stopChromeDriver\<close> logs).
\<close>

theorem stopChromeDriver_twice_counterexample:
  "kills (trace (snd (stopChromeDriver (all_fine\<lparr>kill_r := (\<lambda>p. Inl (Error ''kill ESRCH''))\<rparr>)
     (snd (stopChromeDriver all_fine (initial\<lparr>chromedriverProcess := Some (Proc 4242)\<rparr>))))))
   = [4242, 4242]"
  by (simp add: stopChromeDriver_def io_defs read_def initial_def all_fine_def)

section \<open>Failures and the \<^verbatim>\<open>finally\<close> block\<close>

lemmas stage_defs = testAmazonSearchBar_def body_def openBrowser_def startChromeDriver_def
  navigate_def cleanup_def stopChromeDriver_def

text \<open>
  Claim C8. When \<^verbatim>\<open>start\<close> throws, the run rejects with that very exception, logged
  as the failure to start ChromeDriver; the trace shows that \<^verbatim>\<open>deleteSession\<close> is never
  called, that \<^verbatim>\<open>stopChromeDriver\<close> is still called (and, no process being there,
  sends no signal), and the process exits with code 1.
\<close>

theorem server_start_throws:
  assumes "start_r env = Inl e"
  shows "fst (testAmazonSearchBar env initial) = Inl e \<and>
         trace (snd (testAmazonSearchBar env initial)) =
           [Invoke ''testAmazonSearchBar'',
            ConsoleLog ''Starting WebdriverIO test...'',
            Invoke ''startChromeDriver'',
            ConsoleLog ''Starting ChromeDriver...'',
            ChromedriverStart [''--port=9515''],
            ConsoleError ''Failed to start ChromeDriver:'' e,
            ConsoleError ''Test failed with error:'' e,
            Invoke ''stopChromeDriver''] \<and>
         exits (trace (main env)) = [1]"
  using assms by (simp add: main_def stage_defs io_defs read_def initial_def)

theorem server_start_throws_witness:
  "fst (testAmazonSearchBar (all_fine\<lparr>start_r := Inl (Error ''spawn ENOENT'')\<rparr>) initial)
     = Inl (Error ''spawn ENOENT'') \<and>
   DeleteSession \<notin> set (trace (snd (testAmazonSearchBar
     (all_fine\<lparr>start_r := Inl (Error ''spawn ENOENT'')\<rparr>) initial))) \<and>
   Invoke ''stopChromeDriver'' \<in> set (trace (snd (testAmazonSearchBar
     (all_fine\<lparr>start_r := Inl (Error ''spawn ENOENT'')\<rparr>) initial))) \<and>
   exits (trace (main (all_fine\<lparr>start_r := Inl (Error ''spawn ENOENT'')\<rparr>))) = [1]"
  using server_start_throws [of "all_fine\<lparr>start_r := Inl (Error ''spawn ENOENT'')\<rparr>"
      "Error ''spawn ENOENT''"]
  by simp

text \<open>
  Claim C1 fails on the code. Here navigation throws, so the run has failed after the
  server and the session were opened; in the \<^verbatim>\<open>finally\<close> block \<^verbatim>\<open>deleteSession\<close> throws
  too. Line 189 is not guarded, so \<^verbatim>\<open>stopChromeDriver\<close> of line 193 is never reached
  (no \<open>Invoke\<close> of it, no \<open>ProcessKill\<close>: the trace ends at \<open>DeleteSession\<close>), and the
  run rejects with the exception of \<^verbatim>\<open>deleteSession\<close> instead of the navigation failure.
\<close>

theorem session_close_throws_skips_stop:
  "fst (testAmazonSearchBar
      (all_fine\<lparr>url_r := Inl (Error ''net::ERR_INTERNET_DISCONNECTED''),
                deleteSession_r := Inl (Error ''invalid session id'')\<rparr>) initial)
     = Inl (Error ''invalid session id'') \<and>
   trace (snd (testAmazonSearchBar
      (all_fine\<lparr>url_r := Inl (Error ''net::ERR_INTERNET_DISCONNECTED''),
                deleteSession_r := Inl (Error ''invalid session id'')\<rparr>) initial))
     = [Invoke ''testAmazonSearchBar'',
        ConsoleLog ''Starting WebdriverIO test...'',
        Invoke ''startChromeDriver'',
        ConsoleLog ''Starting ChromeDriver...'',
        ChromedriverStart [''--port=9515''],
        ConsoleLog ''ChromeDriver started successfully on port 9515'',
        SetTimeout 1000,
        Remote,
        ConsoleLog ''Browser initialized'',
        ConsoleLog ''Navigating to Amazon homepage...'',
        Url ''https://www.amazon.com'',
        ConsoleError ''Test failed with error:'' (Error ''net::ERR_INTERNET_DISCONNECTED''),
        DeleteSession]"
  by (simp add: stage_defs io_defs read_def initial_def all_fine_def)

section \<open>The selector loop\<close>

subsection \<open>One pass\<close>

lemma attempted_append: "attempted (xs @ ys) = attempted xs @ attempted ys"
  by (induction xs rule: attempted.induct) simp_all

lemma attempt_confirmed:
  assumes "confirmed (strategy_r env i)" and "dollar_r (strategy_r env i) = Inr el"
  shows "attempt env i sel s =
     (Inr True,
      s\<lparr>searchBar := Some el, searchBarFound := True,
        trace := trace s @
          [ConsoleLog (''Trying selector: '' @ sel),
           Dollar sel,
           WaitForExist el 10000,
           ConsoleLog (''Element found with selector: '' @ sel),
           Execute el,
           Pause 1000,
           IsExisting el,
           ConsoleLog ''Search bar element found!'']\<rparr>)"
  using assms by (simp add: confirmed_def attempt_def io_defs)

lemma attempt_ok: "\<not> isl (fst (attempt env i sel s))"
  by (auto simp add: attempt_def io_defs split: sum.split)

lemma attempt_raises:
  assumes "raises (strategy_r env i)"
  shows "fst (attempt env i sel s) = Inr False"
    and "searchBarFound (snd (attempt env i sel s)) = searchBarFound s"
    and "last (trace (snd (attempt env i sel s))) =
           ConsoleLog (''Selector '' @ sel @ '' did not work, trying next...'')"
  using assms by (auto simp add: raises_def attempt_def io_defs split: sum.split)

lemma attempt_not_confirmed:
  assumes "\<not> confirmed (strategy_r env i)"
  shows "fst (attempt env i sel s) = Inr False"
    and "searchBarFound (snd (attempt env i sel s)) = searchBarFound s"
  using assms by (auto simp add: confirmed_def attempt_def io_defs split: sum.split)

lemma attempt_trace:
  "\<exists>evs. trace (snd (attempt env i sel s)) = trace s @ evs \<and> attempted evs = [sel]"
  by (auto simp add: attempt_def io_defs split: sum.split)

subsection \<open>The loop\<close>

lemma find_loop_Cons_stop:
  "fst (attempt env i sel s) = Inr True \<Longrightarrow>
   find_loop env i (sel # rest) s = (Inr (), snd (attempt env i sel s))"
  by (cases "attempt env i sel s") (simp add: io_defs)

lemma find_loop_Cons_next:
  "fst (attempt env i sel s) = Inr False \<Longrightarrow>
   find_loop env i (sel # rest) s = find_loop env (Suc i) rest (snd (attempt env i sel s))"
  by (cases "attempt env i sel s") (simp add: io_defs)

declare find_loop.simps(2) [simp del]

lemma find_loop_ok: "fst (find_loop env i sels s) = Inr ()"
proof (induction sels arbitrary: i s)
  case Nil
  show ?case by (simp add: io_defs)
next
  case (Cons sel rest)
  show ?case
  proof (cases "fst (attempt env i sel s)")
    case (Inl e)
    with attempt_ok [of env i sel s] show ?thesis by simp
  next
    case (Inr b)
    with Cons.IH show ?thesis
      by (cases b) (simp_all add: find_loop_Cons_stop find_loop_Cons_next)
  qed
qed

lemma find_loop_none:
  assumes "\<forall>j<length sels. \<not> confirmed (strategy_r env (i + j))"
  shows "searchBarFound (snd (find_loop env i sels s)) = searchBarFound s \<and>
         (\<exists>evs. trace (snd (find_loop env i sels s)) = trace s @ evs \<and> attempted evs = sels)"
  using assms
proof (induction sels arbitrary: i s)
  case Nil
  show ?case by (simp add: io_defs)
next
  case (Cons sel rest)
  let ?s1 = "snd (attempt env i sel s)"
  from Cons.prems have here: "\<not> confirmed (strategy_r env i)"
    by force
  from Cons.prems have later: "\<forall>j<length rest. \<not> confirmed (strategy_r env (Suc i + j))"
    by force
  have step: "find_loop env i (sel # rest) s = find_loop env (Suc i) rest ?s1"
    using here by (simp add: find_loop_Cons_next attempt_not_confirmed)
  obtain evs1 where e1: "trace ?s1 = trace s @ evs1" "attempted evs1 = [sel]"
    using attempt_trace [of env i sel s] by blast
  from Cons.IH [OF later, of ?s1] obtain evs2
    where f: "searchBarFound (snd (find_loop env (Suc i) rest ?s1)) = searchBarFound ?s1"
      and e2: "trace (snd (find_loop env (Suc i) rest ?s1)) = trace ?s1 @ evs2"
              "attempted evs2 = rest"
    by blast
  from f e1 e2 here show ?case
    by (simp add: step attempt_not_confirmed attempted_append)
qed

lemma find_loop_first:
  assumes "j < length sels"
    and "confirmed (strategy_r env (i + j))"
    and "dollar_r (strategy_r env (i + j)) = Inr el"
    and "\<forall>j'<j. \<not> confirmed (strategy_r env (i + j'))"
  shows "searchBarFound (snd (find_loop env i sels s)) \<and>
         searchBar (snd (find_loop env i sels s)) = Some el \<and>
         (\<exists>evs. trace (snd (find_loop env i sels s)) = trace s @ evs \<and>
                attempted evs = take (Suc j) sels)"
  using assms
proof (induction sels arbitrary: i j s)
  case Nil
  then show ?case by simp
next
  case (Cons sel rest)
  show ?case
  proof (cases j)
    case 0
    with Cons.prems have c: "confirmed (strategy_r env i)" and d: "dollar_r (strategy_r env i) = Inr el"
      by simp_all
    have "find_loop env i (sel # rest) s = (Inr (), snd (attempt env i sel s))"
      by (simp add: find_loop_Cons_stop attempt_confirmed [OF c d])
    with 0 show ?thesis
      by (simp add: attempt_confirmed [OF c d])
  next
    case (Suc n)
    let ?s1 = "snd (attempt env i sel s)"
    from Suc Cons.prems have here: "\<not> confirmed (strategy_r env i)"
      by force
    have step: "find_loop env i (sel # rest) s = find_loop env (Suc i) rest ?s1"
      using here by (simp add: find_loop_Cons_next attempt_not_confirmed)
    obtain evs1 where e1: "trace ?s1 = trace s @ evs1" "attempted evs1 = [sel]"
      using attempt_trace [of env i sel s] by blast
    from Suc Cons.prems have p1: "n < length rest"
      and p2: "confirmed (strategy_r env (Suc i + n))"
      and p3: "dollar_r (strategy_r env (Suc i + n)) = Inr el"
      by simp_all
    have p4: "\<forall>j'<n. \<not> confirmed (strategy_r env (Suc i + j'))"
    proof (intro allI impI)
      fix j' assume "j' < n"
      with Suc have "Suc j' < j" by simp
      with Cons.prems(4) have "\<not> confirmed (strategy_r env (i + Suc j'))" by blast
      then show "\<not> confirmed (strategy_r env (Suc i + j'))" by simp
    qed
    from Cons.IH [OF p1 p2 p3 p4, of ?s1] obtain evs2
      where f: "searchBarFound (snd (find_loop env (Suc i) rest ?s1))"
        and b: "searchBar (snd (find_loop env (Suc i) rest ?s1)) = Some el"
        and e2: "trace (snd (find_loop env (Suc i) rest ?s1)) = trace ?s1 @ evs2"
                "attempted evs2 = take (Suc n) rest"
      by blast
    from f b e1 e2 Suc show ?thesis
      by (simp add: step attempted_append)
  qed
qed

subsection \<open>The locate operation\<close>

lemma locate_unfold:
  "locate env sels s =
     (let s1 = s\<lparr>trace := trace s @ [ConsoleLog ''Looking for search bar...''],
                  searchBar := None, searchBarFound := False\<rparr>;
          s2 = snd (find_loop env 0 sels s1)
      in if \<not> searchBarFound s2 \<or> searchBar s2 = None
         then (Inl (Error ''Search bar element not found on the page''), s2)
         else (Inr (), s2))"
proof -
  obtain r s2 where f: "find_loop env 0 sels
      (s\<lparr>trace := trace s @ [ConsoleLog ''Looking for search bar...''],
         searchBar := None, searchBarFound := False\<rparr>) = (r, s2)"
    by (cases "find_loop env 0 sels
      (s\<lparr>trace := trace s @ [ConsoleLog ''Looking for search bar...''],
         searchBar := None, searchBarFound := False\<rparr>)")
  with find_loop_ok [of env 0 sels "s\<lparr>trace := trace s @ [ConsoleLog ''Looking for search bar...''],
         searchBar := None, searchBarFound := False\<rparr>"]
  have "r = Inr ()" by simp
  with f show ?thesis
    by (simp add: locate_def io_defs read_def Let_def)
qed

text \<open>
  A pass is confirmed exactly when its element exists and neither the scroll nor the
  settle pause throws.
\<close>

lemma confirmed_existing:
  "confirmed r = (existing r \<and> execute_r r = Inr () \<and> pause1000_r r = Inr ())"
  by (auto simp add: confirmed_def existing_def)

text \<open>
  Claim C2, as the code has it. A strategy wins when it yields an existing element and,
  besides, its scroll and its settle pause do not throw, so that its pass reaches line
  140 (\<open>confirmed\<close>, see \<open>confirmed_existing\<close>). When the strategy at position \<open>j\<close> of
  the list is the first one that does, the locate operation succeeds, \<^verbatim>\<open>searchBar\<close> is
  the element \<^verbatim>\<open>browser.$\<close> gave for that strategy, and the selectors passed to
  \<^verbatim>\<open>browser.$\<close> are exactly the first \<open>j + 1\<close> of the list, in order: no strategy after
  the winner is attempted. A strategy whose element exists but whose scroll or settle
  pause throws is passed over.
\<close>

theorem find_first_wins:
  assumes "j < length sels"
    and "confirmed (strategy_r env j)"
    and "dollar_r (strategy_r env j) = Inr el"
    and "\<forall>j'<j. \<not> confirmed (strategy_r env j')"
  shows "fst (locate env sels s) = Inr () \<and>
         searchBar (snd (locate env sels s)) = Some el \<and>
         attempted (since s (snd (locate env sels s))) = take (Suc j) sels"
proof -
  let ?s1 = "s\<lparr>trace := trace s @ [ConsoleLog ''Looking for search bar...''],
                searchBar := None, searchBarFound := False\<rparr>"
  from find_loop_first [of j sels env 0 el ?s1] assms obtain evs
    where "searchBarFound (snd (find_loop env 0 sels ?s1))"
      and "searchBar (snd (find_loop env 0 sels ?s1)) = Some el"
      and "trace (snd (find_loop env 0 sels ?s1)) = trace ?s1 @ evs"
      and "attempted evs = take (Suc j) sels"
    by auto
  then show ?thesis
    by (simp add: locate_unfold Let_def since_def attempted_append)
qed

text \<open>
  Claim C6. When no strategy of the list yields an existing element, the locate operation
  throws \<^verbatim>\<open>Error('Search bar element not found on the page')\<close>, and the selectors passed
  to \<^verbatim>\<open>browser.$\<close> are exactly those of the list, each once and in order: no strategy
  is tried a second time.
\<close>

theorem find_none_fails:
  assumes "\<forall>j<length sels. \<not> confirmed (strategy_r env j)"
  shows "fst (locate env sels s) = Inl (Error ''Search bar element not found on the page'') \<and>
         attempted (since s (snd (locate env sels s))) = sels"
proof -
  let ?s1 = "s\<lparr>trace := trace s @ [ConsoleLog ''Looking for search bar...''],
                searchBar := None, searchBarFound := False\<rparr>"
  from find_loop_none [of sels env 0 ?s1] assms obtain evs
    where "searchBarFound (snd (find_loop env 0 sels ?s1)) = searchBarFound ?s1"
      and "trace (snd (find_loop env 0 sels ?s1)) = trace ?s1 @ evs"
      and "attempted evs = sels"
    by auto
  then show ?thesis
    by (simp add: locate_unfold Let_def since_def attempted_append)
qed

theorem find_first_wins_witness:
  "fst (locate (all_fine\<lparr>strategy_r := (\<lambda>i. if i = 0 then absent (Element 0) else present (Element i))\<rparr>)
         [''#a'', ''#b'', ''#c''] initial) = Inr () \<and>
   searchBar (snd (locate (all_fine\<lparr>strategy_r := (\<lambda>i. if i = 0 then absent (Element 0) else present (Element i))\<rparr>)
         [''#a'', ''#b'', ''#c''] initial)) = Some (Element 1) \<and>
   attempted (since initial (snd (locate (all_fine\<lparr>strategy_r := (\<lambda>i. if i = 0 then absent (Element 0) else present (Element i))\<rparr>)
         [''#a'', ''#b'', ''#c''] initial))) = [''#a'', ''#b'']"
  using find_first_wins [of 1 "[''#a'', ''#b'', ''#c'']"
      "all_fine\<lparr>strategy_r := (\<lambda>i. if i = 0 then absent (Element 0) else present (Element i))\<rparr>"
      "Element 1" initial]
  by (simp add: confirmed_def present_def absent_def)

text \<open>
  The claim C2 as the specification states it fails. With the five selectors of the
  script, the first strategy yields an existing element (element 0: acquired, the
  existence wait returns, the re-check would answer \<^verbatim>\<open>true\<close>) but its scroll throws. The
  locate operation then returns the element of the second strategy, after two calls of
  \<^verbatim>\<open>browser.$\<close>: not the element of the first strategy that yields an existing element.
\<close>

theorem find_first_existing_counterexample:
  "existing (strategy_r (all_fine\<lparr>strategy_r := (\<lambda>i. if i = 0
          then (present (Element 0))\<lparr>execute_r := Inl (Error ''javascript error: scroll failed'')\<rparr>
          else present (Element i))\<rparr>) 0) \<and>
   dollar_r (strategy_r (all_fine\<lparr>strategy_r := (\<lambda>i. if i = 0
          then (present (Element 0))\<lparr>execute_r := Inl (Error ''javascript error: scroll failed'')\<rparr>
          else present (Element i))\<rparr>) 0) = Inr (Element 0) \<and>
   fst (locate (all_fine\<lparr>strategy_r := (\<lambda>i. if i = 0
          then (present (Element 0))\<lparr>execute_r := Inl (Error ''javascript error: scroll failed'')\<rparr>
          else present (Element i))\<rparr>) selectors initial) = Inr () \<and>
   searchBar (snd (locate (all_fine\<lparr>strategy_r := (\<lambda>i. if i = 0
          then (present (Element 0))\<lparr>execute_r := Inl (Error ''javascript error: scroll failed'')\<rparr>
          else present (Element i))\<rparr>) selectors initial)) = Some (Element 1) \<and>
   attempted (since initial (snd (locate (all_fine\<lparr>strategy_r := (\<lambda>i. if i = 0
          then (present (Element 0))\<lparr>execute_r := Inl (Error ''javascript error: scroll failed'')\<rparr>
          else present (Element i))\<rparr>) selectors initial))) = take 2 selectors"
  by (simp add: existing_def present_def all_fine_def locate_def attempt_def io_defs read_def
      initial_def since_def selectors_def find_loop.simps)

theorem find_none_fails_witness:
  "fst (locate (all_fine\<lparr>strategy_r := (\<lambda>i. absent (Element i))\<rparr>) selectors initial)
     = Inl (Error ''Search bar element not found on the page'') \<and>
   attempted (since initial
     (snd (locate (all_fine\<lparr>strategy_r := (\<lambda>i. absent (Element i))\<rparr>) selectors initial)))
     = selectors"
  using find_none_fails [of selectors "all_fine\<lparr>strategy_r := (\<lambda>i. absent (Element i))\<rparr>" initial]
  by (simp add: confirmed_def absent_def)

lemma find_loop_appends:
  "\<exists>evs. trace (snd (find_loop env i sels s)) = trace s @ evs"
  using emitsD [OF emits_find_loop, of env i sels s] by blast

lemma find_loop_starts:
  "\<exists>more. attempted (since s (snd (find_loop env i (sel # rest) s))) = sel # more"
proof -
  let ?s1 = "snd (attempt env i sel s)"
  obtain evs1 where e1: "trace ?s1 = trace s @ evs1" "attempted evs1 = [sel]"
    using attempt_trace [of env i sel s] by blast
  show ?thesis
  proof (cases "fst (attempt env i sel s)")
    case (Inl e)
    with attempt_ok [of env i sel s] show ?thesis by simp
  next
    case (Inr b)
    show ?thesis
    proof (cases b)
      case True
      with Inr e1 show ?thesis
        by (simp add: find_loop_Cons_stop since_def)
    next
      case False
      obtain evs2 where "trace (snd (find_loop env (Suc i) rest ?s1)) = trace ?s1 @ evs2"
        using find_loop_appends [of env "Suc i" rest ?s1] by blast
      with False Inr e1 show ?thesis
        by (simp add: find_loop_Cons_next since_def attempted_append)
    qed
  qed
qed

text \<open>
  Claim C7. No exception leaves the loop, and the only exception of the locate operation
  is the one thrown at line 151 after the loop. When a call of the pass at position \<open>i\<close>
  throws (the acquisition, the existence wait, the scroll, the settle pause or the
  re-check), the pass ends without a \<^verbatim>\<open>break\<close> and without setting
  \<^verbatim>\<open>searchBarFound\<close>, its last act is the console line of line 145, and the loop
  goes on with the rest of the list at position \<open>i + 1\<close>: the next selector, when there
  is one, is the next one passed to \<^verbatim>\<open>browser.$\<close>.
\<close>

theorem strategy_exception_is_local:
  "fst (find_loop env i sels s) = Inr () \<and>
   (fst (locate env sels s) = Inr () \<or>
    fst (locate env sels s) = Inl (Error ''Search bar element not found on the page'')) \<and>
   (raises (strategy_r env i) \<longrightarrow>
      fst (attempt env i sel s) = Inr False \<and>
      searchBarFound (snd (attempt env i sel s)) = searchBarFound s \<and>
      last (trace (snd (attempt env i sel s))) =
        ConsoleLog (''Selector '' @ sel @ '' did not work, trying next...'') \<and>
      find_loop env i (sel # rest) s = find_loop env (Suc i) rest (snd (attempt env i sel s)) \<and>
      (\<exists>more. attempted (since s (snd (find_loop env i (sel # next # later) s)))
                = sel # next # more))"
proof -
  have local: "fst (locate env sels s) = Inr () \<or>
      fst (locate env sels s) = Inl (Error ''Search bar element not found on the page'')"
    by (simp add: locate_unfold Let_def)
  have "\<exists>more. attempted (since s (snd (find_loop env i (sel # next # later) s)))
                = sel # next # more"
    if r: "raises (strategy_r env i)"
  proof -
    let ?s1 = "snd (attempt env i sel s)"
    obtain evs1 where e1: "trace ?s1 = trace s @ evs1" "attempted evs1 = [sel]"
      using attempt_trace [of env i sel s] by blast
    obtain evs2 where e2: "trace (snd (find_loop env (Suc i) (next # later) ?s1)) = trace ?s1 @ evs2"
      using find_loop_appends [of env "Suc i" "next # later" ?s1] by blast
    obtain more where "attempted (since ?s1 (snd (find_loop env (Suc i) (next # later) ?s1)))
        = next # more"
      using find_loop_starts [of ?s1 env "Suc i" "next" later] by blast
    with e2 have "attempted evs2 = next # more"
      by (simp add: since_def)
    with e1 e2 r show ?thesis
      by (simp add: find_loop_Cons_next attempt_raises since_def attempted_append)
  qed
  with local show ?thesis
    by (simp add: find_loop_ok attempt_raises find_loop_Cons_next)
qed

theorem strategy_exception_is_local_witness:
  "fst (locate (all_fine\<lparr>strategy_r := (\<lambda>i. if i = 0
          then (present (Element 0))\<lparr>dollar_r := Inl (Error ''invalid selector'')\<rparr>
          else present (Element i))\<rparr>) [''#a'', ''#b''] initial) = Inr () \<and>
   attempted (since initial (snd (find_loop (all_fine\<lparr>strategy_r := (\<lambda>i. if i = 0
          then (present (Element 0))\<lparr>dollar_r := Inl (Error ''invalid selector'')\<rparr>
          else present (Element i))\<rparr>) 0 [''#a'', ''#b''] initial))) = [''#a'', ''#b'']"
  using strategy_exception_is_local [of
      "all_fine\<lparr>strategy_r := (\<lambda>i. if i = 0
          then (present (Element 0))\<lparr>dollar_r := Inl (Error ''invalid selector'')\<rparr>
          else present (Element i))\<rparr>" 0 "[''#a'', ''#b'']" initial "''#a''" "[''#b'']" "''#b''" "[]"]
  by (simp add: raises_def present_def all_fine_def locate_def attempt_def io_defs read_def
      initial_def since_def find_loop.simps)

text \<open>
  Claim C3, as the code has it. When the element of a strategy was acquired and found to
  exist, and then the scroll (\<^verbatim>\<open>browser.execute\<close>) or the settle pause throws, the
  exception is caught at line 144: it does not fail the locate operation, but the
  strategy is given up. \<^verbatim>\<open>searchBarFound\<close> is not set, the re-check is never made, the
  console line of line 145 is written, and the loop goes on with the next strategy.
\<close>

theorem scroll_failure_abandons_strategy:
  assumes "dollar_r (strategy_r env i) = Inr el"
    and "waitForExist_r (strategy_r env i) = Inr ()"
    and "isl (execute_r (strategy_r env i)) \<or> isl (pause1000_r (strategy_r env i))"
  shows "fst (attempt env i sel s) = Inr False \<and>
         searchBarFound (snd (attempt env i sel s)) = searchBarFound s \<and>
         trace (snd (attempt env i sel s)) =
           trace s @
           [ConsoleLog (''Trying selector: '' @ sel),
            Dollar sel,
            WaitForExist el 10000,
            ConsoleLog (''Element found with selector: '' @ sel),
            Execute el] @
           (if isl (execute_r (strategy_r env i)) then [] else [Pause 1000]) @
           [ConsoleLog (''Selector '' @ sel @ '' did not work, trying next...'')] \<and>
         find_loop env i (sel # rest) s = find_loop env (Suc i) rest (snd (attempt env i sel s))"
proof -
  have r: "raises (strategy_r env i)"
    using assms(3) by (auto simp: raises_def)
  have "trace (snd (attempt env i sel s)) =
           trace s @
           [ConsoleLog (''Trying selector: '' @ sel),
            Dollar sel,
            WaitForExist el 10000,
            ConsoleLog (''Element found with selector: '' @ sel),
            Execute el] @
           (if isl (execute_r (strategy_r env i)) then [] else [Pause 1000]) @
           [ConsoleLog (''Selector '' @ sel @ '' did not work, trying next...'')]"
    using assms by (auto simp add: attempt_def io_defs split: sum.split)
  with r show ?thesis
    by (simp add: attempt_raises find_loop_Cons_next)
qed

theorem scroll_failure_abandons_strategy_witness:
  "fst (attempt (all_fine\<lparr>strategy_r := (\<lambda>i. if i = 0
          then (present (Element 0))\<lparr>execute_r := Inl (Error ''javascript error'')\<rparr>
          else present (Element i))\<rparr>) 0 ''#a'' initial) = Inr False \<and>
   \<not> searchBarFound (snd (attempt (all_fine\<lparr>strategy_r := (\<lambda>i. if i = 0
          then (present (Element 0))\<lparr>execute_r := Inl (Error ''javascript error'')\<rparr>
          else present (Element i))\<rparr>) 0 ''#a'' initial))"
  using scroll_failure_abandons_strategy [of
      "all_fine\<lparr>strategy_r := (\<lambda>i. if i = 0
          then (present (Element 0))\<lparr>execute_r := Inl (Error ''javascript error'')\<rparr>
          else present (Element i))\<rparr>" 0 "Element 0" "''#a''" initial "[''#b'']"]
  by (simp add: present_def initial_def)

text \<open>
  The claim C3 as the specification states it fails. The first strategy finds its element
  (element 0) and its scroll throws; the element returned is the one of the second
  strategy (element 1), and with the first strategy alone the locate operation fails.
\<close>

theorem scroll_failure_counterexample:
  "searchBar (snd (locate (all_fine\<lparr>strategy_r := (\<lambda>i. if i = 0
          then (present (Element 0))\<lparr>execute_r := Inl (Error ''javascript error'')\<rparr>
          else present (Element i))\<rparr>) [''#a'', ''#b''] initial)) = Some (Element 1) \<and>
   attempted (trace (snd (locate (all_fine\<lparr>strategy_r := (\<lambda>i. if i = 0
          then (present (Element 0))\<lparr>execute_r := Inl (Error ''javascript error'')\<rparr>
          else present (Element i))\<rparr>) [''#a'', ''#b''] initial))) = [''#a'', ''#b''] \<and>
   fst (locate (all_fine\<lparr>strategy_r := (\<lambda>i. if i = 0
          then (present (Element 0))\<lparr>execute_r := Inl (Error ''javascript error'')\<rparr>
          else present (Element i))\<rparr>) [''#a''] initial)
     = Inl (Error ''Search bar element not found on the page'')"
  by (simp add: present_def all_fine_def locate_def attempt_def io_defs read_def
      initial_def find_loop.simps)

section \<open>The pause after navigation\<close>

lemma then_io_extends:
  assumes "emits P n"
  shows "\<exists>evs. trace (snd (then_io m n s)) = trace (snd (m s)) @ evs"
proof (cases "m s")
  case (Pair r s1)
  show ?thesis
  proof (cases r)
    case (Inl e)
    with Pair show ?thesis by (simp add: then_io_def bind_io_def)
  next
    case (Inr x)
    from emitsD [OF assms, of s1] obtain evs where "trace (snd (n s1)) = trace s1 @ evs"
      by blast
    with Pair Inr show ?thesis by (simp add: then_io_def bind_io_def)
  qed
qed

lemma try_catch_extends:
  assumes "\<And>e. emits P (h e)"
  shows "\<exists>evs. trace (snd (try_catch m h s)) = trace (snd (m s)) @ evs"
proof (cases "m s")
  case (Pair r s1)
  show ?thesis
  proof (cases r)
    case (Inr x)
    with Pair show ?thesis by (simp add: try_catch_def)
  next
    case (Inl e)
    from emitsD [OF assms, of e s1] obtain evs where "trace (snd (h e s1)) = trace s1 @ evs"
      by blast
    with Pair Inl show ?thesis by (simp add: try_catch_def)
  qed
qed

lemma try_finally_extends:
  assumes "emits P fin"
  shows "\<exists>evs. trace (snd (try_finally m fin s)) = trace (snd (m s)) @ evs"
proof (cases "m s")
  case (Pair r s1)
  obtain r2 s2 where f: "fin s1 = (r2, s2)" by (cases "fin s1")
  from emitsD [OF assms, of s1] f obtain evs where "trace s2 = trace s1 @ evs"
    by auto
  with Pair f show ?thesis
    by (cases r2) (simp_all add: try_finally_def)
qed

lemma emits_after_navigate:
  "emits stage_event
     (then_io (popupCheck env)
     (then_io (locate env selectors)
     (then_io (checkVisibility env)
     (then_io (inspectAttributes env)
              (hold env)))))"
  by (simp add: emits_then emits_popupCheck emits_locate emits_checkVisibility
      emits_inspectAttributes emits_hold)

lemma openBrowser_ok:
  assumes "start_r env = Inr p" and "remote_r env = Inr (Some b)"
  shows "openBrowser env s =
     (Inr (), s\<lparr>trace := trace s @
        [ConsoleLog ''Starting WebdriverIO test...'',
         Invoke ''startChromeDriver'',
         ConsoleLog ''Starting ChromeDriver...'',
         ChromedriverStart [''--port=9515''],
         ConsoleLog ''ChromeDriver started successfully on port 9515'',
         SetTimeout 1000,
         Remote,
         ConsoleLog ''Browser initialized''],
       chromedriverProcess := Some p, browser := Some b\<rparr>)"
  using assms by (simp add: openBrowser_def startChromeDriver_def io_defs read_def)

text \<open>
  Claim C10. In every run in which the server starts, the session opens and
  \<^verbatim>\<open>browser.url\<close> returns, the trace begins with the fourteen events below: right after
  the navigation and its two console lines comes \<^verbatim>\<open>browser.pause(3000)\<close>, whatever the
  page answers, and before it no selector has been passed to \<^verbatim>\<open>browser.$\<close>. All the
  strategy attempts, each with its own \<^verbatim>\<open>waitForExist\<close> of 10000 ms, are in \<open>post\<close>.
\<close>

theorem pause_before_first_strategy:
  assumes "start_r env = Inr p" and "remote_r env = Inr (Some b)" and "url_r env = Inr ()"
  shows "\<exists>post. trace (snd (testAmazonSearchBar env initial)) =
           [Invoke ''testAmazonSearchBar'',
            ConsoleLog ''Starting WebdriverIO test...'',
            Invoke ''startChromeDriver'',
            ConsoleLog ''Starting ChromeDriver...'',
            ChromedriverStart [''--port=9515''],
            ConsoleLog ''ChromeDriver started successfully on port 9515'',
            SetTimeout 1000,
            Remote,
            ConsoleLog ''Browser initialized'',
            ConsoleLog ''Navigating to Amazon homepage...'',
            Url ''https://www.amazon.com'',
            ConsoleLog ''Amazon homepage loaded'',
            ConsoleLog ''Waiting for page to load...'',
            Pause 3000] @ post"
proof -
  let ?H = "\<lambda>error. then_io (console_error ''Test failed with error:'' error) (throw_io error)"
  let ?rest = "then_io (popupCheck env)
     (then_io (locate env selectors)
     (then_io (checkVisibility env)
     (then_io (inspectAttributes env)
              (hold env))))"
  let ?s0 = "initial\<lparr>trace := [Invoke ''testAmazonSearchBar'']\<rparr>"
  let ?s1 = "snd (openBrowser env ?s0)"
  have run: "testAmazonSearchBar env initial =
      try_finally (try_catch (body env) ?H) (cleanup env) ?s0"
    by (simp add: testAmazonSearchBar_def then_io_def bind_io_def emit_def call_def assign_def
        initial_def)
  have body: "body env ?s0 = then_io (navigate env) ?rest ?s1"
    by (simp add: body_def then_io_def bind_io_def openBrowser_ok [OF assms(1,2)])
  have nav: "trace (snd (navigate env ?s1)) =
           [Invoke ''testAmazonSearchBar'',
            ConsoleLog ''Starting WebdriverIO test...'',
            Invoke ''startChromeDriver'',
            ConsoleLog ''Starting ChromeDriver...'',
            ChromedriverStart [''--port=9515''],
            ConsoleLog ''ChromeDriver started successfully on port 9515'',
            SetTimeout 1000,
            Remote,
            ConsoleLog ''Browser initialized'',
            ConsoleLog ''Navigating to Amazon homepage...'',
            Url ''https://www.amazon.com'',
            ConsoleLog ''Amazon homepage loaded'',
            ConsoleLog ''Waiting for page to load...'',
            Pause 3000]"
    using assms(3)
    by (simp add: navigate_def io_defs openBrowser_ok [OF assms(1,2)] initial_def)
  have handler: "emits stage_event (?H error)" for error
    by (simp add: emits_intros)
  obtain e1 where 1: "trace (snd (testAmazonSearchBar env initial)) =
      trace (snd (try_catch (body env) ?H ?s0)) @ e1"
    using try_finally_extends [OF emits_cleanup, of "try_catch (body env) ?H" env ?s0] run
    by auto
  obtain e2 where 2: "trace (snd (try_catch (body env) ?H ?s0)) = trace (snd (body env ?s0)) @ e2"
    using try_catch_extends [of stage_event ?H "body env" ?s0] handler by blast
  obtain e3 where 3: "trace (snd (body env ?s0)) = trace (snd (navigate env ?s1)) @ e3"
    using then_io_extends [OF emits_after_navigate, of "navigate env" env ?s1] body by auto
  from 1 2 3 nav show ?thesis
    by simp
qed

theorem pause_before_first_strategy_witness:
  "take 4 (drop 10 (trace (snd (testAmazonSearchBar all_fine initial)))) =
     [Url ''https://www.amazon.com'',
      ConsoleLog ''Amazon homepage loaded'',
      ConsoleLog ''Waiting for page to load...'',
      Pause 3000]"
  using pause_before_first_strategy [of all_fine "Proc 4242" "Session ''abc''"]
  by (auto simp add: all_fine_def)

section \<open>Inspection of the element\<close>

lemma then_io_ok: "fst (m s) = Inr x \<Longrightarrow> fst (then_io m n s) = fst (n (snd (m s)))"
  by (cases "m s") (simp add: then_io_def bind_io_def)

lemma try_catch_ok: "fst (m s) = Inr x \<Longrightarrow> fst (try_catch m h s) = Inr x"
  by (cases "m s") (simp add: try_catch_def)

lemma try_finally_ok: "fst (fin (snd (m s))) = Inr () \<Longrightarrow> fst (try_finally m fin s) = fst (m s)"
  by (cases "m s"; cases "fin (snd (m s))") (simp add: try_finally_def)

lemma navigate_ok:
  "url_r env = Inr () \<Longrightarrow> pause3000_r env = Inr () \<Longrightarrow> fst (navigate env s) = Inr ()"
  by (simp add: navigate_def io_defs)

lemma popupCheck_ok: "fst (popupCheck env s) = Inr ()"
  by (simp add: popupCheck_def io_defs split: sum.split)

lemma checkVisibility_ok: "fst (checkVisibility env s) = Inr ()"
  by (simp add: checkVisibility_def io_defs read_def split: sum.split option.split)

lemma inspectAttributes_ok: "fst (inspectAttributes env s) = Inr ()"
  by (simp add: inspectAttributes_def io_defs read_def split: sum.split option.split)

lemma hold_ok: "pause30000_r env = Inr () \<Longrightarrow> fst (hold env s) = Inr ()"
  by (simp add: hold_def io_defs)

lemma cleanup_ok: "deleteSession_r env = Inr () \<Longrightarrow> fst (cleanup env s) = Inr ()"
  by (cases "browser s")
     (simp_all add: cleanup_def then_io_ok [where x = "()"] stopChromeDriver_ok io_defs read_def)

lemma locate_ok:
  assumes "j < length sels" and "confirmed (strategy_r env j)"
  shows "fst (locate env sels s) = Inr ()"
proof -
  define k where "k = (LEAST n. confirmed (strategy_r env n))"
  have c: "confirmed (strategy_r env k)"
    unfolding k_def using assms(2) by (rule LeastI)
  have "k \<le> j"
    unfolding k_def using assms(2) by (rule Least_le)
  with assms(1) have l: "k < length sels" by simp
  have first: "\<forall>n<k. \<not> confirmed (strategy_r env n)"
    unfolding k_def using not_less_Least by blast
  from c obtain el where d: "dollar_r (strategy_r env k) = Inr el"
    by (cases "dollar_r (strategy_r env k)") (simp_all add: confirmed_def)
  let ?s1 = "s\<lparr>trace := trace s @ [ConsoleLog ''Looking for search bar...''],
                searchBar := None, searchBarFound := False\<rparr>"
  from find_loop_first [of k sels env 0 el ?s1] l c d first
  have "searchBarFound (snd (find_loop env 0 sels ?s1))"
    and "searchBar (snd (find_loop env 0 sels ?s1)) = Some el"
    by auto
  then show ?thesis
    by (simp add: locate_unfold Let_def)
qed

lemma inspectAttributes_lines:
  assumes "searchBar s = Some el"
    and "getAttribute_r env el ''placeholder'' = Inr vp"
    and "getAttribute_r env el ''id'' = Inr vi"
    and "getAttribute_r env el ''name'' = Inr vn"
  shows "since s (snd (inspectAttributes env s)) =
     [GetAttribute el ''placeholder'',
      GetAttribute el ''id'',
      GetAttribute el ''name'',
      ConsoleLog (''Search bar ID: '' @ or_na vi),
      ConsoleLog (''Search bar name: '' @ or_na vn),
      ConsoleLog (''Search bar placeholder: '' @ or_na vp)]"
  using assms by (simp add: inspectAttributes_def io_defs read_def since_def)

lemma run_ok:
  assumes "start_r env = Inr p" and "remote_r env = Inr (Some b)"
    and "url_r env = Inr ()" and "pause3000_r env = Inr ()"
    and "j < length selectors" and "confirmed (strategy_r env j)"
    and "pause30000_r env = Inr ()" and "deleteSession_r env = Inr ()"
  shows "fst (testAmazonSearchBar env initial) = Inr ()"
proof -
  let ?H = "\<lambda>error. then_io (console_error ''Test failed with error:'' error) (throw_io error)"
  let ?s0 = "initial\<lparr>trace := [Invoke ''testAmazonSearchBar'']\<rparr>"
  have run: "testAmazonSearchBar env initial =
      try_finally (try_catch (body env) ?H) (cleanup env) ?s0"
    by (simp add: testAmazonSearchBar_def then_io_def bind_io_def emit_def call_def assign_def
        initial_def)
  have "fst (openBrowser env s) = Inr ()" for s
    by (simp add: openBrowser_ok [OF assms(1,2)])
  then have "fst (body env ?s0) = Inr ()"
    by (simp add: body_def then_io_ok [where x = "()"] navigate_ok [OF assms(3,4)]
        popupCheck_ok locate_ok [OF assms(5,6)] checkVisibility_ok inspectAttributes_ok
        hold_ok [OF assms(7)])
  then have "fst (try_catch (body env) ?H ?s0) = Inr ()"
    by (rule try_catch_ok)
  then show ?thesis
    by (simp add: run try_finally_ok cleanup_ok [OF assms(8)])
qed

text \<open>
  Claim C4, as the code has it. Reading the attributes never throws, whatever
  \<^verbatim>\<open>getAttribute\<close> answers for \<^verbatim>\<open>placeholder\<close>, \<^verbatim>\<open>id\<close> and \<^verbatim>\<open>name\<close>. A run in which
  the server, the session, the navigation, the pauses and \<^verbatim>\<open>deleteSession\<close> succeed and
  some strategy yields an existing element resolves and exits with 0; nothing is asked
  of the attribute reads (nor of \<^verbatim>\<open>isDisplayed\<close>), so they may fail. When the three reads
  succeed, each value \<open>v\<close> is logged as \<^verbatim>\<open>v || 'N/A'\<close>: a missing value (\<^verbatim>\<open>null\<close>) is
  logged as \<^verbatim>\<open>N/A\<close>, and so is the empty string.
\<close>

theorem attribute_reads_best_effort:
  "fst (inspectAttributes env s) = Inr () \<and>
   (start_r env = Inr p \<and> remote_r env = Inr (Some b) \<and>
    url_r env = Inr () \<and> pause3000_r env = Inr () \<and>
    j < length selectors \<and> confirmed (strategy_r env j) \<and>
    pause30000_r env = Inr () \<and> deleteSession_r env = Inr () \<longrightarrow>
      fst (testAmazonSearchBar env initial) = Inr () \<and> exits (trace (main env)) = [0]) \<and>
   (searchBar s = Some el \<and>
    getAttribute_r env el ''placeholder'' = Inr vp \<and>
    getAttribute_r env el ''id'' = Inr vi \<and>
    getAttribute_r env el ''name'' = Inr vn \<longrightarrow>
      since s (snd (inspectAttributes env s)) =
        [GetAttribute el ''placeholder'',
         GetAttribute el ''id'',
         GetAttribute el ''name'',
         ConsoleLog (''Search bar ID: '' @ or_na vi),
         ConsoleLog (''Search bar name: '' @ or_na vn),
         ConsoleLog (''Search bar placeholder: '' @ or_na vp)]) \<and>
   or_na None = ''N/A'' \<and> or_na (Some '''') = ''N/A''"
proof -
  have "fst (testAmazonSearchBar env initial) = Inr () \<and> exits (trace (main env)) = [0]"
    if "start_r env = Inr p" "remote_r env = Inr (Some b)"
       "url_r env = Inr ()" "pause3000_r env = Inr ()"
       "j < length selectors" "confirmed (strategy_r env j)"
       "pause30000_r env = Inr ()" "deleteSession_r env = Inr ()"
    using run_ok [OF that] by (simp add: exits_main)
  then show ?thesis
    by (simp add: inspectAttributes_ok inspectAttributes_lines or_na_def)
qed

theorem attribute_reads_best_effort_witness:
  "fst (testAmazonSearchBar
      (all_fine\<lparr>getAttribute_r := (\<lambda>el a. Inl (Error ''stale element reference''))\<rparr>) initial)
     = Inr () \<and>
   exits (trace (main
      (all_fine\<lparr>getAttribute_r := (\<lambda>el a. Inl (Error ''stale element reference''))\<rparr>))) = [0] \<and>
   since (initial\<lparr>searchBar := Some (Element 0)\<rparr>)
     (snd (inspectAttributes
        (all_fine\<lparr>getAttribute_r :=
           (\<lambda>el a. if a = ''id'' then Inr None else if a = ''name'' then Inr (Some '''')
                    else Inr (Some ''Search Amazon''))\<rparr>)
        (initial\<lparr>searchBar := Some (Element 0)\<rparr>))) =
     [GetAttribute (Element 0) ''placeholder'',
      GetAttribute (Element 0) ''id'',
      GetAttribute (Element 0) ''name'',
      ConsoleLog ''Search bar ID: N/A'',
      ConsoleLog ''Search bar name: N/A'',
      ConsoleLog ''Search bar placeholder: Search Amazon'']"
  using attribute_reads_best_effort [of
      "all_fine\<lparr>getAttribute_r := (\<lambda>el a. Inl (Error ''stale element reference''))\<rparr>"
      initial "Proc 4242" "Session ''abc''" 0 "Element 0" "None" "None" "None"]
    attribute_reads_best_effort [of
      "all_fine\<lparr>getAttribute_r :=
           (\<lambda>el a. if a = ''id'' then Inr None else if a = ''name'' then Inr (Some '''')
                    else Inr (Some ''Search Amazon''))\<rparr>"
      "initial\<lparr>searchBar := Some (Element 0)\<rparr>" "Proc 4242" "Session ''abc''" 0
      "Element 0" "Some ''Search Amazon''" "None" "Some ''''"]
  by (simp add: all_fine_def confirmed_def present_def selectors_def initial_def or_na_def)

text \<open>
  The claim C4 as the specification states it fails in its last part: a page whose
  attributes are all missing and a page whose attributes are all the empty string give
  the same trace, console lines included (\<^verbatim>\<open>Search bar ID: N/A\<close> in both).
\<close>

theorem missing_and_empty_attribute_counterexample:
  "getAttribute_r (all_fine\<lparr>getAttribute_r := (\<lambda>el a. Inr None)\<rparr>) (Element 0) ''id''
     \<noteq> getAttribute_r (all_fine\<lparr>getAttribute_r := (\<lambda>el a. Inr (Some ''''))\<rparr>) (Element 0) ''id'' \<and>
   trace (main (all_fine\<lparr>getAttribute_r := (\<lambda>el a. Inr None)\<rparr>))
     = trace (main (all_fine\<lparr>getAttribute_r := (\<lambda>el a. Inr (Some ''''))\<rparr>)) \<and>
   ConsoleLog ''Search bar ID: N/A''
     \<in> set (trace (main (all_fine\<lparr>getAttribute_r := (\<lambda>el a. Inr (Some ''''))\<rparr>)))"
  by (simp add: main_def stage_defs popupCheck_def locate_def selectors_def find_loop.simps
      attempt_def checkVisibility_def inspectAttributes_def hold_def or_na_def
      io_defs read_def initial_def all_fine_def present_def)

end
